theory Spec2Isabelle
  imports Main
begin

section \<open>The GuardDuty threat-intel-set table: data model\<close>

text \<open>
  The connector in \<^verbatim>\<open>aws/table_aws_guardduty_threat_intel_set.go\<close> is three resolvers
  (list, get, akas) and a table descriptor. Everything the resolvers do beyond returning
  a value goes through collaborators that are passed in here as parameters: the session
  constructor \<^verbatim>\<open>GuardDutyService\<close>, the service's two operations, the helper
  \<^verbatim>\<open>getListValues\<close>, the formatting of its result by \<^verbatim>\<open>fmt.Sprint\<close>, the memoized
  \<^verbatim>\<open>getCommonColumns\<close> and the host's \<^verbatim>\<open>RowsRemaining\<close>.
\<close>

text \<open>A Go \<^verbatim>\<open>error\<close>: an AWS error carries a code and a message, any other error a text.\<close>

datatype error = AwsErr string string | PlainErr string

text \<open>
  \<^verbatim>\<open>proto.QualValue\<close> is a protobuf oneof. Its generated getters are nil-safe and return
  the zero value unless the oneof holds the alternative asked for; the alternatives
  other than string and list behave alike for both getters used here.
\<close>

datatype qual_value = StringValue string | ListValue "qual_value list" | OtherValue

fun GetStringValue :: "qual_value option \<Rightarrow> string" where
  "GetStringValue (Some (StringValue s)) = s"
| "GetStringValue _ = ''''"

fun GetListValue :: "qual_value option \<Rightarrow> qual_value list option" where
  "GetListValue (Some (ListValue vs)) = Some vs"
| "GetListValue _ = None"

type_synonym KeyColumnQuals = "string \<rightharpoonup> qual_value"

text \<open>
  \<^verbatim>\<open>guardduty.GetThreatIntelSetOutput\<close>: every field is a pointer or a map, so it may be
  absent. \<^verbatim>\<open>threatIntelSetInfo\<close> embeds it and adds the identifying pair.
\<close>

record GetThreatIntelSetOutput =
  Format :: "string option"
  Location :: "string option"
  Name :: "string option"
  Status :: "string option"
  Tags :: "(string \<times> string) list"

record threatIntelSetInfo = GetThreatIntelSetOutput +
  ThreatIntelSetID :: string
  DetectorID :: string

record ListThreatIntelSetsInput =
  DetectorId :: string
  MaxResults :: int

text \<open>The get request has the fields \<^verbatim>\<open>DetectorId\<close> and \<^verbatim>\<open>ThreatIntelSetId\<close>.\<close>

record GetThreatIntelSetInput =
  GetDetectorId :: string
  GetThreatIntelSetId :: string

text \<open>
  What the paginated list operation answers from some page token on: a failure, a final
  page, or a page together with the behaviour behind its next token.
\<close>

datatype pages = Fails error | LastPage "string list" | NextPage "string list" pages

text \<open>The service handle: its behaviour on a list request and on a get request.\<close>

record GuardDuty =
  ListThreatIntelSets :: "ListThreatIntelSetsInput \<Rightarrow> pages"
  GetThreatIntelSet :: "GetThreatIntelSetInput \<Rightarrow> error + GetThreatIntelSetOutput"

text \<open>
  The observable effects, in the order they happen: a list call with the answer it got, a
  get call with the answer it got, and a row handed to \<^verbatim>\<open>StreamLeafListItem\<close>.
\<close>

datatype event =
    ListCall ListThreatIntelSetsInput "error + string list"
  | GetCall GetThreatIntelSetInput "error + GetThreatIntelSetOutput"
  | Stream threatIntelSetInfo

type_synonym trace = "event list"

record awsCommonColumnData =
  Partition :: string
  AccountId :: string

section \<open>Library functions the resolvers call\<close>

text \<open>\<^verbatim>\<open>strings.HasPrefix\<close> and \<^verbatim>\<open>strings.Contains\<close> on byte strings.\<close>

fun HasPrefix :: "string \<Rightarrow> string \<Rightarrow> bool" where
  "HasPrefix s [] = True"
| "HasPrefix [] (c # p) = False"
| "HasPrefix (x # s) (c # p) = (x = c \<and> HasPrefix s p)"

fun Contains :: "string \<Rightarrow> string \<Rightarrow> bool" where
  "Contains [] substr = (substr = [])"
| "Contains (x # s) substr = (HasPrefix (x # s) substr \<or> Contains s substr)"

text \<open>\<^verbatim>\<open>fmt.Sprint\<close> of a slice of strings: the elements between brackets, separated by spaces.\<close>

fun join_spaces :: "string list \<Rightarrow> string" where
  "join_spaces [] = ''''"
| "join_spaces [x] = x"
| "join_spaces (x # y # xs) = x @ '' '' @ join_spaces (y # xs)"

definition Sprint_strings :: "string list \<Rightarrow> string" where
  "Sprint_strings xs = ''['' @ join_spaces xs @ '']''"

text \<open>
  The paginator of the AWS SDK, \<^verbatim>\<open>ListThreatIntelSetsPages\<close>: it sends the request, hands
  each page to the callback with the flag \<^verbatim>\<open>isLast\<close>, and goes on to the next token while
  there is one and the callback answers true. A failed request ends the loop and is the
  error returned; otherwise the error is nil.
\<close>

fun ListThreatIntelSetsPages ::
  "pages \<Rightarrow> ListThreatIntelSetsInput \<Rightarrow> (string list \<Rightarrow> bool \<Rightarrow> trace \<Rightarrow> bool \<times> trace)
     \<Rightarrow> trace \<Rightarrow> error option \<times> trace" where
  "ListThreatIntelSetsPages (Fails err) input fn t = (Some err, t @ [ListCall input (Inl err)])"
| "ListThreatIntelSetsPages (LastPage ids) input fn t =
     (case fn ids True (t @ [ListCall input (Inr ids)]) of (continue, t') \<Rightarrow> (None, t'))"
| "ListThreatIntelSetsPages (NextPage ids rest) input fn t =
     (case fn ids False (t @ [ListCall input (Inr ids)]) of
        (continue, t') \<Rightarrow> if continue then ListThreatIntelSetsPages rest input fn t' else (None, t'))"

section \<open>The list resolver\<close>

text \<open>
  The row built for one identifier: the embedded output is the zero value, the pair is
  the identifier and the detector of the current parent row.
\<close>

definition summary :: "string \<Rightarrow> string \<Rightarrow> threatIntelSetInfo" where
  "summary detectorID result =
     \<lparr>Format = None, Location = None, Name = None, Status = None, Tags = [],
      ThreatIntelSetID = result, DetectorID = detectorID\<rparr>"

text \<open>
  The page callback (lines 139 to 152): every identifier of the page is streamed, and
  after each row \<^verbatim>\<open>RowsRemaining\<close> is asked; the answer zero ends the pagination.
  \<^verbatim>\<open>RowsRemaining\<close> belongs to the host, so it is a function of everything that has
  happened so far.
\<close>

fun page_callback ::
  "(trace \<Rightarrow> nat) \<Rightarrow> string \<Rightarrow> string list \<Rightarrow> bool \<Rightarrow> trace \<Rightarrow> bool \<times> trace" where
  "page_callback RowsRemaining detectorID [] isLast t = (\<not> isLast, t)"
| "page_callback RowsRemaining detectorID (result # rest) isLast t =
     (if RowsRemaining (t @ [Stream (summary detectorID result)]) = 0
      then (False, t @ [Stream (summary detectorID result)])
      else page_callback RowsRemaining detectorID rest isLast
             (t @ [Stream (summary detectorID result)]))"

text \<open>
  Lines 119 to 129: whether the detector of the current parent row is skipped because of
  the \<^verbatim>\<open>detector_id\<close> qual. \<^verbatim>\<open>getListValues\<close> is defined elsewhere in the repository and
  \<^verbatim>\<open>fmt.Sprint\<close> prints whatever it returns, so both are parameters.
\<close>

definition skips_detector ::
  "(qual_value list option \<Rightarrow> 'a list) \<Rightarrow> ('a list \<Rightarrow> string) \<Rightarrow> KeyColumnQuals \<Rightarrow> string \<Rightarrow> bool" where
  "skips_detector getListValues Sprint equalQuals detectorID =
     (if equalQuals ''detector_id'' \<noteq> None then
        (if GetStringValue (equalQuals ''detector_id'') \<noteq> '''' then
           (if GetStringValue (equalQuals ''detector_id'') \<noteq> '''' \<and>
               GetStringValue (equalQuals ''detector_id'') \<noteq> detectorID
            then True else False)
         else if length (getListValues (GetListValue (equalQuals ''detector_id''))) > 0 then
           (if \<not> Contains (Sprint (getListValues (GetListValue (equalQuals ''detector_id''))))
                   detectorID
            then True else False)
         else False)
      else False)"

definition listGuardDutyThreatIntelSets ::
  "(error + GuardDuty) \<Rightarrow> (qual_value list option \<Rightarrow> 'a list) \<Rightarrow> ('a list \<Rightarrow> string)
     \<Rightarrow> (trace \<Rightarrow> nat) \<Rightarrow> KeyColumnQuals \<Rightarrow> string \<Rightarrow> trace \<Rightarrow> error option \<times> trace" where
  "listGuardDutyThreatIntelSets GuardDutyService getListValues Sprint RowsRemaining
       equalQuals detectorID t =
     (case GuardDutyService of
        Inl err \<Rightarrow> (Some err, t)
      | Inr svc \<Rightarrow>
          if skips_detector getListValues Sprint equalQuals detectorID then (None, t)
          else
            ListThreatIntelSetsPages
              (ListThreatIntelSets svc \<lparr>DetectorId = detectorID, MaxResults = 50\<rparr>)
              \<lparr>DetectorId = detectorID, MaxResults = 50\<rparr>
              (page_callback RowsRemaining detectorID) t)"

section \<open>The get resolver\<close>

definition getGuardDutyThreatIntelSet ::
  "(error + GuardDuty) \<Rightarrow> KeyColumnQuals \<Rightarrow> threatIntelSetInfo option \<Rightarrow> trace
     \<Rightarrow> (error + threatIntelSetInfo) \<times> trace" where
  "getGuardDutyThreatIntelSet GuardDutyService KeyColumnQuals Item t =
     (case GuardDutyService of
        Inl err \<Rightarrow> (Inl err, t)
      | Inr svc \<Rightarrow>
          (case (case Item of
                   Some item \<Rightarrow> (DetectorID item, ThreatIntelSetID item)
                 | None \<Rightarrow> (GetStringValue (KeyColumnQuals ''detector_id''),
                            GetStringValue (KeyColumnQuals ''threat_intel_set_id''))) of
             (detectorID, id') \<Rightarrow>
               (case GetThreatIntelSet svc
                       \<lparr>GetDetectorId = detectorID, GetThreatIntelSetId = id'\<rparr> of
                  Inl err \<Rightarrow>
                    (Inl err,
                     t @ [GetCall \<lparr>GetDetectorId = detectorID, GetThreatIntelSetId = id'\<rparr>
                            (Inl err)])
                | Inr op \<Rightarrow>
                    (Inr \<lparr>Format = Format op, Location = Location op, Name = Name op,
                          Status = Status op, Tags = Tags op,
                          ThreatIntelSetID = id', DetectorID = detectorID\<rparr>,
                     t @ [GetCall \<lparr>GetDetectorId = detectorID, GetThreatIntelSetId = id'\<rparr>
                            (Inr op)]))))"

section \<open>The akas transform\<close>

text \<open>
  \<^verbatim>\<open>region\<close> is the value of \<^verbatim>\<open>d.KeyColumnQualString(matrixKeyRegion)\<close> and \<^verbatim>\<open>c\<close> the
  result of the memoized \<^verbatim>\<open>getCommonColumns\<close>.
\<close>

definition getAwsGuardDutyThreatIntelSetAkas ::
  "string \<Rightarrow> (error + awsCommonColumnData) \<Rightarrow> threatIntelSetInfo \<Rightarrow> error + string list" where
  "getAwsGuardDutyThreatIntelSetAkas region c data =
     (case c of
        Inl err \<Rightarrow> Inl err
      | Inr commonColumnData \<Rightarrow>
          Inr [''arn:'' @ Partition commonColumnData @ '':guardduty:'' @ region @ '':'' @
               AccountId commonColumnData @ '':detector'' @ ''/'' @ DetectorID data @
               ''/threatintelset/'' @ ThreatIntelSetID data])"

section \<open>The table descriptor and the point lookup\<close>

text \<open>
  Modelled from the spec: \<^verbatim>\<open>isNotFoundError\<close> is defined in another file of the
  repository. The spec (4.2 and 7) says that a get call failing with one of the listed
  error codes is classified as not found; an error that carries no AWS error code is
  not classified.
\<close>

definition isNotFoundError :: "string list \<Rightarrow> error \<Rightarrow> bool" where
  "isNotFoundError notFoundErrors err =
     (case err of AwsErr code msg \<Rightarrow> code \<in> set notFoundErrors | PlainErr msg \<Rightarrow> False)"

text \<open>The \<^verbatim>\<open>Get\<close> configuration of the descriptor (lines 27 to 33).\<close>

record GetConfig =
  KeyColumns :: "string list"
  ShouldIgnoreErrorFunc :: "error \<Rightarrow> bool"

definition tableAwsGuardDutyThreatIntelSet_Get :: GetConfig where
  "tableAwsGuardDutyThreatIntelSet_Get =
     \<lparr>KeyColumns = [''detector_id'', ''threat_intel_set_id''],
      ShouldIgnoreErrorFunc = isNotFoundError [''InvalidInputException'', ''BadRequestException'']\<rparr>"

text \<open>
  Modelled from the spec: the host framework's point lookup is not part of the
  repository. The spec (4.2 and 7) says that the host runs the get resolver on the
  key-column values and that an error the descriptor's ignore policy classifies as not
  found yields an empty result set instead of a failure.
\<close>

definition point_lookup ::
  "GetConfig \<Rightarrow> (error + GuardDuty) \<Rightarrow> KeyColumnQuals \<Rightarrow> trace
     \<Rightarrow> (error + threatIntelSetInfo list) \<times> trace" where
  "point_lookup cfg GuardDutyService KeyColumnQuals t =
     (case getGuardDutyThreatIntelSet GuardDutyService KeyColumnQuals None t of
        (Inl err, t') \<Rightarrow> if ShouldIgnoreErrorFunc cfg err then (Inr [], t') else (Inl err, t')
      | (Inr row, t') \<Rightarrow> (Inr [row], t'))"

section \<open>Observations on traces\<close>

text \<open>The rows streamed in a trace, in order.\<close>

fun streamed_rows :: "trace \<Rightarrow> threatIntelSetInfo list" where
  "streamed_rows [] = []"
| "streamed_rows (Stream row # es) = row # streamed_rows es"
| "streamed_rows (e # es) = streamed_rows es"

text \<open>The page being processed at the end of a trace: the answer to its latest list call.\<close>

fun page_after :: "string list \<Rightarrow> event \<Rightarrow> string list" where
  "page_after cur (ListCall input (Inr ids)) = ids"
| "page_after cur (ListCall input (Inl err)) = []"
| "page_after cur e = cur"

definition current_page :: "trace \<Rightarrow> string list" where
  "current_page t = foldl page_after [] t"



text \<open>
  Two properties of the events a run adds to the trace \<open>t\<close>, by recursion on them: after
  a streamed row at which \<^verbatim>\<open>RowsRemaining\<close> is zero nothing follows; every streamed row
  carries the given detector and an identifier of the page being processed.
\<close>

fun quiet_after_stop :: "(trace \<Rightarrow> nat) \<Rightarrow> trace \<Rightarrow> trace \<Rightarrow> bool" where
  "quiet_after_stop RowsRemaining t [] = True"
| "quiet_after_stop RowsRemaining t (Stream row # es) =
     ((RowsRemaining (t @ [Stream row]) \<noteq> 0 \<or> es = []) \<and>
      quiet_after_stop RowsRemaining (t @ [Stream row]) es)"
| "quiet_after_stop RowsRemaining t (e # es) = quiet_after_stop RowsRemaining (t @ [e]) es"

fun rows_of_page :: "string \<Rightarrow> string list \<Rightarrow> trace \<Rightarrow> bool" where
  "rows_of_page detectorID cur [] = True"
| "rows_of_page detectorID cur (Stream row # es) =
     (DetectorID row = detectorID \<and> ThreatIntelSetID row \<in> set cur \<and>
      rows_of_page detectorID cur es)"
| "rows_of_page detectorID cur (e # es) = rows_of_page detectorID (page_after cur e) es"

section \<open>Concrete collaborators\<close>

text \<open>
  Modelled from the spec: \<^verbatim>\<open>getListValues\<close> is defined in another file of the
  repository. The spec (4.1) describes the list-value constraint as a list of strings, so
  this reading returns the string values of the list's elements. The theorems take
  \<^verbatim>\<open>getListValues\<close> as a parameter; this reading is used at concrete inputs only.
\<close>

definition getListValues_strings :: "qual_value list option \<Rightarrow> string list" where
  "getListValues_strings listValue =
     (case listValue of None \<Rightarrow> [] | Some vs \<Rightarrow> map (\<lambda>v. GetStringValue (Some v)) vs)"

text \<open>A host that never asks to stop, and a host with a row limit.\<close>

definition unlimited :: "trace \<Rightarrow> nat" where
  "unlimited t = 2147483647"

definition limited :: "nat \<Rightarrow> trace \<Rightarrow> nat" where
  "limited n t = n - length (streamed_rows t)"

text \<open>A service with three sets on two pages, one with a failing second page.\<close>

definition two_pages :: "ListThreatIntelSetsInput \<Rightarrow> pages" where
  "two_pages input = NextPage [''t1'', ''t2''] (LastPage [''t3''])"

definition failing_second_page :: "ListThreatIntelSetsInput \<Rightarrow> pages" where
  "failing_second_page input =
     NextPage [''t1''] (Fails (AwsErr ''InternalServerErrorException'' ''try again''))"

definition one_set :: "GetThreatIntelSetInput \<Rightarrow> error + GetThreatIntelSetOutput" where
  "one_set params =
     (if GetDetectorId params = ''d1'' \<and> GetThreatIntelSetId params = ''t1''
      then Inr \<lparr>Format = Some ''TXT'', Location = Some ''s3://bucket/list.txt'',
                Name = Some ''blocked'', Status = Some ''ACTIVE'', Tags = []\<rparr>
      else Inl (AwsErr ''BadRequestException'' ''The request is rejected''))"

definition throttled :: "GetThreatIntelSetInput \<Rightarrow> error + GetThreatIntelSetOutput" where
  "throttled params = Inl (AwsErr ''ThrottlingException'' ''Rate exceeded'')"

definition svc_two_pages :: GuardDuty where
  "svc_two_pages = \<lparr>ListThreatIntelSets = two_pages, GetThreatIntelSet = one_set\<rparr>"

definition svc_failing :: GuardDuty where
  "svc_failing = \<lparr>ListThreatIntelSets = failing_second_page, GetThreatIntelSet = throttled\<rparr>"

definition no_quals :: KeyColumnQuals where
  "no_quals = Map.empty"

definition quals_string :: "string \<Rightarrow> KeyColumnQuals" where
  "quals_string F = [''detector_id'' \<mapsto> StringValue F]"

definition quals_list :: "string list \<Rightarrow> KeyColumnQuals" where
  "quals_list S = [''detector_id'' \<mapsto> ListValue (map StringValue S)]"

definition quals_pair :: "string \<Rightarrow> string \<Rightarrow> KeyColumnQuals" where
  "quals_pair D I =
     [''detector_id'' \<mapsto> StringValue D, ''threat_intel_set_id'' \<mapsto> StringValue I]"

section \<open>The akas transform builds the documented identifier\<close>

text \<open>
  C1. For every partition, region, account ID, detector ID and threat-intel-set ID the
  akas transform returns the one-element list holding
  \<^verbatim>\<open>arn:<partition>:guardduty:<region>:<accountId>:detector/<detectorId>/threatintelset/<threatIntelSetId>\<close>,
  whatever the other fields of the row are; at aws, us-east-1, 123456789012, d1, t1 this is
  \<^verbatim>\<open>arn:aws:guardduty:us-east-1:123456789012:detector/d1/threatintelset/t1\<close>.
\<close>

theorem akas_is_documented_arn:
  "getAwsGuardDutyThreatIntelSetAkas region
       (Inr \<lparr>Partition = part, AccountId = accountId\<rparr>)
       \<lparr>Format = f, Location = l, Name = n, Status = s, Tags = g,
        ThreatIntelSetID = threatIntelSetId, DetectorID = detectorId\<rparr>
     = Inr [''arn:'' @ part @ '':guardduty:'' @ region @ '':'' @ accountId @
            '':detector/'' @ detectorId @ ''/threatintelset/'' @ threatIntelSetId]
   \<and> getAwsGuardDutyThreatIntelSetAkas ''us-east-1''
       (Inr \<lparr>Partition = ''aws'', AccountId = ''123456789012''\<rparr>)
       \<lparr>Format = f, Location = l, Name = n, Status = s, Tags = g,
        ThreatIntelSetID = ''t1'', DetectorID = ''d1''\<rparr>
     = Inr [''arn:aws:guardduty:us-east-1:123456789012:detector/d1/threatintelset/t1'']"
  by (simp add: getAwsGuardDutyThreatIntelSetAkas_def)

section \<open>Early stop\<close>

lemma quiet_after_stop_append:
  "quiet_after_stop RR t (a @ b) =
     (quiet_after_stop RR t a \<and> quiet_after_stop RR (t @ a) b \<and>
      (a = [] \<or> b = [] \<or> (\<forall>row. last a \<noteq> Stream row) \<or> RR (t @ a) \<noteq> 0))"
proof (induction a arbitrary: t)
  case Nil
  then show ?case by simp
next
  case (Cons e es)
  show ?case
    by (cases e; cases "es = []") (auto simp: Cons.IH)
qed

lemma quiet_after_stop_split:
  "quiet_after_stop RR t new \<Longrightarrow> new = pre @ Stream row # post \<Longrightarrow>
     RR (t @ pre @ [Stream row]) = 0 \<Longrightarrow> post = []"
proof (induction pre arbitrary: t new)
  case Nil
  then show ?case by auto
next
  case (Cons e pre)
  from Cons.prems have q: "quiet_after_stop RR (t @ [e]) (pre @ Stream row # post)"
    by (cases e) auto
  show ?case
    using Cons.IH [OF q refl] Cons.prems(3) by simp
qed

lemma page_callback_quiet:
  "page_callback RR D ids isLast t = (c, t') \<Longrightarrow>
     \<exists>new. t' = t @ new \<and> quiet_after_stop RR t new \<and>
       (c \<longrightarrow> new = [] \<or> RR t' \<noteq> 0) \<and> (new \<noteq> [] \<longrightarrow> (\<exists>row. last new = Stream row))"
proof (induction ids arbitrary: t)
  case Nil
  then show ?case by auto
next
  case (Cons r rs)
  let ?e = "Stream (summary D r)"
  show ?case
  proof (cases "RR (t @ [?e]) = 0")
    case True
    with Cons.prems have "c = False" "t' = t @ [?e]" by auto
    then show ?thesis using True by auto
  next
    case False
    with Cons.prems have "page_callback RR D rs isLast (t @ [?e]) = (c, t')" by simp
    from Cons.IH [OF this] obtain new where
      n: "t' = (t @ [?e]) @ new" "quiet_after_stop RR (t @ [?e]) new"
         "c \<longrightarrow> new = [] \<or> RR t' \<noteq> 0" "new \<noteq> [] \<longrightarrow> (\<exists>row. last new = Stream row)"
      by blast
    show ?thesis
    proof (intro exI conjI)
      show "t' = t @ (?e # new)" using n(1) by simp
      show "quiet_after_stop RR t (?e # new)" using n(2) False by simp
      show "c \<longrightarrow> ?e # new = [] \<or> RR t' \<noteq> 0" using n(1,3) False by auto
      show "?e # new \<noteq> [] \<longrightarrow> (\<exists>row. last (?e # new) = Stream row)" using n(4) by auto
    qed
  qed
qed

lemma pages_quiet:
  "ListThreatIntelSetsPages pg input (page_callback RR D) t = (r, t') \<Longrightarrow>
     \<exists>new. t' = t @ new \<and> quiet_after_stop RR t new"
proof (induction pg arbitrary: t)
  case (Fails e)
  then show ?case by auto
next
  case (LastPage ids)
  let ?t1 = "t @ [ListCall input (Inr ids)]"
  obtain c t1 where pc: "page_callback RR D ids True ?t1 = (c, t1)" by force
  with LastPage have t': "t' = t1" by simp
  from page_callback_quiet [OF pc] obtain new where
    n: "t1 = ?t1 @ new" "quiet_after_stop RR ?t1 new" by blast
  show ?case
    by (rule exI [of _ "ListCall input (Inr ids) # new"]) (use n t' in simp)
next
  case (NextPage ids rest)
  let ?t1 = "t @ [ListCall input (Inr ids)]"
  obtain c t1 where pc: "page_callback RR D ids False ?t1 = (c, t1)" by force
  from page_callback_quiet [OF pc] obtain new where
    n: "t1 = ?t1 @ new" "quiet_after_stop RR ?t1 new" "c \<longrightarrow> new = [] \<or> RR t1 \<noteq> 0"
       "new \<noteq> [] \<longrightarrow> (\<exists>row. last new = Stream row)" by blast
  show ?case
  proof (cases c)
    case False
    with NextPage.prems pc have "t' = t1" by simp
    then show ?thesis
      by (intro exI [of _ "ListCall input (Inr ids) # new"]) (use n in simp)
  next
    case True
    with NextPage.prems pc have "ListThreatIntelSetsPages rest input (page_callback RR D) t1 = (r, t')"
      by simp
    from NextPage.IH [OF this] obtain new2 where
      n2: "t' = t1 @ new2" "quiet_after_stop RR t1 new2" by blast
    have "quiet_after_stop RR ?t1 (new @ new2)"
      using n n2 True by (auto simp: quiet_after_stop_append)
    then show ?thesis
      by (intro exI [of _ "ListCall input (Inr ids) # new @ new2"]) (use n n2 in simp)
  qed
qed


text \<open>
  C6. Whatever the session, the quals, the service and the host are: once
  \<^verbatim>\<open>RowsRemaining\<close>, asked after a streamed row, answers zero, the run adds nothing more to
  the trace, neither a further list call nor a further row.
\<close>

theorem list_stops_when_no_rows_remain:
  "listGuardDutyThreatIntelSets GuardDutyService getListValues Sprint RowsRemaining
       equalQuals detectorID t = (r, t') \<Longrightarrow>
   \<exists>new. t' = t @ new \<and>
     (\<forall>pre row post. new = pre @ Stream row # post \<longrightarrow>
        RowsRemaining (t @ pre @ [Stream row]) = 0 \<longrightarrow> post = [])"
proof (cases GuardDutyService)
  case (Inl err)
  assume "listGuardDutyThreatIntelSets GuardDutyService getListValues Sprint RowsRemaining
       equalQuals detectorID t = (r, t')"
  with Inl have "t' = t" by (simp add: listGuardDutyThreatIntelSets_def)
  then show ?thesis by simp
next
  case (Inr svc)
  assume run: "listGuardDutyThreatIntelSets GuardDutyService getListValues Sprint RowsRemaining
       equalQuals detectorID t = (r, t')"
  show ?thesis
  proof (cases "skips_detector getListValues Sprint equalQuals detectorID")
    case True
    with run Inr have "t' = t" by (simp add: listGuardDutyThreatIntelSets_def)
    then show ?thesis by simp
  next
    case False
    with run Inr have
      "ListThreatIntelSetsPages
         (ListThreatIntelSets svc \<lparr>DetectorId = detectorID, MaxResults = 50\<rparr>)
         \<lparr>DetectorId = detectorID, MaxResults = 50\<rparr>
         (page_callback RowsRemaining detectorID) t = (r, t')"
      by (simp add: listGuardDutyThreatIntelSets_def)
    from pages_quiet [OF this] obtain new where
      n: "t' = t @ new" "quiet_after_stop RowsRemaining t new" by blast
    show ?thesis
      using n quiet_after_stop_split [OF n(2)] by blast
  qed
qed

theorem list_stops_when_no_rows_remain_witness:
  "listGuardDutyThreatIntelSets (Inr svc_two_pages) getListValues_strings Sprint_strings
       (limited 1) no_quals ''d1'' []
     = (None, [ListCall \<lparr>DetectorId = ''d1'', MaxResults = 50\<rparr> (Inr [''t1'', ''t2'']),
               Stream (summary ''d1'' ''t1'')])
   \<and> limited 1 [ListCall \<lparr>DetectorId = ''d1'', MaxResults = 50\<rparr> (Inr [''t1'', ''t2'']),
                 Stream (summary ''d1'' ''t1'')] = 0"
proof -
  have run: "listGuardDutyThreatIntelSets (Inr svc_two_pages) getListValues_strings
       Sprint_strings (limited 1) no_quals ''d1'' []
     = (None, [ListCall \<lparr>DetectorId = ''d1'', MaxResults = 50\<rparr> (Inr [''t1'', ''t2'']),
               Stream (summary ''d1'' ''t1'')])"
    by (simp add: listGuardDutyThreatIntelSets_def svc_two_pages_def two_pages_def
        skips_detector_def no_quals_def limited_def)
  have zero: "limited 1 [ListCall \<lparr>DetectorId = ''d1'', MaxResults = 50\<rparr> (Inr [''t1'', ''t2'']),
                 Stream (summary ''d1'' ''t1'')] = 0"
    by (simp add: limited_def)
  from list_stops_when_no_rows_remain [OF run] run zero show ?thesis by simp
qed


section \<open>Pagination without a stop\<close>









section \<open>The rows of a page\<close>

lemma page_callback_prefix:
  "\<exists>k. snd (page_callback RR D ids isLast t)
         = t @ map (\<lambda>result. Stream (summary D result)) (take k ids)"
proof (induction ids arbitrary: t)
  case Nil
  show ?case by simp
next
  case (Cons r rs)
  show ?case
  proof (cases "RR (t @ [Stream (summary D r)]) = 0")
    case True
    then have "snd (page_callback RR D (r # rs) isLast t)
        = t @ map (\<lambda>result. Stream (summary D result)) (take 1 (r # rs))"
      by simp
    then show ?thesis by blast
  next
    case False
    from Cons.IH [of "t @ [Stream (summary D r)]"] obtain k where
      "snd (page_callback RR D rs isLast (t @ [Stream (summary D r)]))
         = (t @ [Stream (summary D r)]) @ map (\<lambda>result. Stream (summary D result)) (take k rs)"
      by blast
    with False have "snd (page_callback RR D (r # rs) isLast t)
        = t @ map (\<lambda>result. Stream (summary D result)) (take (Suc k) (r # rs))"
      by simp
    then show ?thesis by blast
  qed
qed

lemma rows_of_page_append:
  "rows_of_page D cur (a @ b) = (rows_of_page D cur a \<and> rows_of_page D (foldl page_after cur a) b)"
  by (induction D cur a rule: rows_of_page.induct) simp_all

lemma rows_of_page_streams:
  "set xs \<subseteq> set cur \<Longrightarrow> rows_of_page D cur (map (\<lambda>result. Stream (summary D result)) xs)"
  by (induction xs) (simp_all add: summary_def)

lemma page_after_streams:
  "foldl page_after cur (map (\<lambda>result. Stream (summary D result)) xs) = cur"
  by (induction xs) simp_all

lemma pages_rows_of_page:
  "\<exists>new. snd (ListThreatIntelSetsPages pg input (page_callback RR D) t) = t @ new \<and>
          rows_of_page D cur new"
proof (induction pg arbitrary: t cur)
  case (Fails e)
  show ?case by simp
next
  case (LastPage ids)
  from page_callback_prefix [of RR D ids True "t @ [ListCall input (Inr ids)]"]
  obtain k where k: "snd (page_callback RR D ids True (t @ [ListCall input (Inr ids)]))
      = (t @ [ListCall input (Inr ids)]) @ map (\<lambda>result. Stream (summary D result)) (take k ids)"
    by blast
  have "set (take k ids) \<subseteq> set ids" by (rule set_take_subset)
  then have "rows_of_page D cur
      (ListCall input (Inr ids) # map (\<lambda>result. Stream (summary D result)) (take k ids))"
    by (simp add: rows_of_page_streams)
  with k show ?case
    by (auto split: prod.splits)
next
  case (NextPage ids rest)
  let ?t1 = "t @ [ListCall input (Inr ids)]"
  let ?new = "map (\<lambda>result. Stream (summary D result))"
  from page_callback_prefix [of RR D ids False ?t1]
  obtain k where k: "snd (page_callback RR D ids False ?t1) = ?t1 @ ?new (take k ids)"
    by blast
  have sub: "set (take k ids) \<subseteq> set ids" by (rule set_take_subset)
  then have first: "rows_of_page D cur (ListCall input (Inr ids) # ?new (take k ids))"
    by (simp add: rows_of_page_streams)
  show ?case
  proof (cases "fst (page_callback RR D ids False ?t1)")
    case False
    with k first show ?thesis by (auto split: prod.splits)
  next
    case True
    from NextPage.IH [of "?t1 @ ?new (take k ids)" ids] obtain new2 where
      n2: "snd (ListThreatIntelSetsPages rest input (page_callback RR D) (?t1 @ ?new (take k ids)))
             = (?t1 @ ?new (take k ids)) @ new2"
          "rows_of_page D ids new2"
      by blast
    have "rows_of_page D cur ((ListCall input (Inr ids) # ?new (take k ids)) @ new2)"
      using first n2(2) by (simp only: rows_of_page_append) (simp add: page_after_streams)
    moreover have "snd (ListThreatIntelSetsPages (NextPage ids rest) input (page_callback RR D) t)
        = t @ (ListCall input (Inr ids) # ?new (take k ids)) @ new2"
      using True k n2(1) by (auto split: prod.splits)
    ultimately show ?thesis by blast
  qed
qed

lemma rows_of_page_split:
  "rows_of_page D (current_page t) new \<Longrightarrow> new = pre @ Stream row # post \<Longrightarrow>
     DetectorID row = D \<and> ThreatIntelSetID row \<in> set (current_page (t @ pre))"
  by (simp add: rows_of_page_append current_page_def)

text \<open>
  C9. Every row the list resolver streams carries the detector of the current parent row,
  and its identifier is one of the page being processed, that is of the answer to the
  latest list call before the row.
\<close>

theorem list_rows_pair_parent_detector_with_page_identifier:
  "\<exists>new. snd (listGuardDutyThreatIntelSets GuardDutyService getListValues Sprint
                 RowsRemaining equalQuals detectorID t) = t @ new \<and>
     (\<forall>pre row post. new = pre @ Stream row # post \<longrightarrow>
        DetectorID row = detectorID \<and> ThreatIntelSetID row \<in> set (current_page (t @ pre)))"
proof -
  have "\<exists>new. snd (listGuardDutyThreatIntelSets GuardDutyService getListValues Sprint
                 RowsRemaining equalQuals detectorID t) = t @ new \<and>
     rows_of_page detectorID (current_page t) new"
  proof (cases GuardDutyService)
    case (Inl err)
    then show ?thesis by (simp add: listGuardDutyThreatIntelSets_def)
  next
    case (Inr svc)
    then show ?thesis
      using pages_rows_of_page [of _ _ RowsRemaining detectorID t "current_page t"]
      by (simp add: listGuardDutyThreatIntelSets_def)
  qed
  then show ?thesis
    using rows_of_page_split by blast
qed


theorem list_rows_pair_parent_detector_with_page_identifier_witness:
  "snd (listGuardDutyThreatIntelSets (Inr svc_two_pages) getListValues_strings Sprint_strings
          unlimited no_quals ''d1'' [])
     = [ListCall \<lparr>DetectorId = ''d1'', MaxResults = 50\<rparr> (Inr [''t1'', ''t2'']),
        Stream (summary ''d1'' ''t1''), Stream (summary ''d1'' ''t2''),
        ListCall \<lparr>DetectorId = ''d1'', MaxResults = 50\<rparr> (Inr [''t3'']),
        Stream (summary ''d1'' ''t3'')]
   \<and> DetectorID (summary ''d1'' ''t3'') = ''d1''
   \<and> ThreatIntelSetID (summary ''d1'' ''t3'')
       \<in> set (current_page
            [ListCall \<lparr>DetectorId = ''d1'', MaxResults = 50\<rparr> (Inr [''t1'', ''t2'']),
             Stream (summary ''d1'' ''t1''), Stream (summary ''d1'' ''t2''),
             ListCall \<lparr>DetectorId = ''d1'', MaxResults = 50\<rparr> (Inr [''t3''])])
   \<and> current_page
         [ListCall \<lparr>DetectorId = ''d1'', MaxResults = 50\<rparr> (Inr [''t1'', ''t2'']),
          Stream (summary ''d1'' ''t1''), Stream (summary ''d1'' ''t2''),
          ListCall \<lparr>DetectorId = ''d1'', MaxResults = 50\<rparr> (Inr [''t3''])]
       = [''t3'']"
proof -
  let ?pre = "[ListCall \<lparr>DetectorId = ''d1'', MaxResults = 50\<rparr> (Inr [''t1'', ''t2'']),
             Stream (summary ''d1'' ''t1''), Stream (summary ''d1'' ''t2''),
             ListCall \<lparr>DetectorId = ''d1'', MaxResults = 50\<rparr> (Inr [''t3''])]"
  have run: "snd (listGuardDutyThreatIntelSets (Inr svc_two_pages) getListValues_strings
          Sprint_strings unlimited no_quals ''d1'' [])
     = ?pre @ [Stream (summary ''d1'' ''t3'')]"
    by (simp add: listGuardDutyThreatIntelSets_def svc_two_pages_def two_pages_def
        skips_detector_def no_quals_def unlimited_def)
  have page: "current_page ?pre = [''t3'']"
    by (simp add: current_page_def)
  from list_rows_pair_parent_detector_with_page_identifier
    [of "Inr svc_two_pages" getListValues_strings Sprint_strings unlimited no_quals "''d1''" "[]"]
  obtain new where
    n: "snd (listGuardDutyThreatIntelSets (Inr svc_two_pages) getListValues_strings
          Sprint_strings unlimited no_quals ''d1'' []) = [] @ new"
       "\<forall>pre row post. new = pre @ Stream row # post \<longrightarrow>
          DetectorID row = ''d1'' \<and> ThreatIntelSetID row \<in> set (current_page ([] @ pre))"
    by blast
  from n(1) run have "new = ?pre @ Stream (summary ''d1'' ''t3'') # []" by simp
  with n(2) have "DetectorID (summary ''d1'' ''t3'') = ''d1'' \<and>
      ThreatIntelSetID (summary ''d1'' ''t3'') \<in> set (current_page ([] @ ?pre))"
    by blast
  with run page show ?thesis by simp
qed

section \<open>Errors are returned unchanged\<close>

lemma failed_call_last:
  assumes "pre @ ListCall i (Inl e) # post = pre' @ [ListCall i' (Inl e')]"
    and "\<forall>j x. ListCall j (Inl x) \<notin> set pre'"
  shows "post = [] \<and> e = e' \<and> pre = pre'"
proof (cases post rule: rev_cases)
  case Nil
  with assms(1) show ?thesis by simp
next
  case (snoc ys y)
  with assms(1) have "pre' = pre @ ListCall i (Inl e) # ys" by simp
  with assms(2) show ?thesis by auto
qed

lemma pages_errors:
  "ListThreatIntelSetsPages pg input (page_callback RR D) t = (r, t') \<Longrightarrow>
   \<exists>new. t' = t @ new \<and>
     (case r of
        None \<Rightarrow> \<forall>j x. ListCall j (Inl x) \<notin> set new
      | Some e \<Rightarrow> \<exists>pre. new = pre @ [ListCall input (Inl e)] \<and>
                        (\<forall>j x. ListCall j (Inl x) \<notin> set pre))"
proof (induction pg arbitrary: t)
  case (Fails e)
  then show ?case by auto
next
  case (LastPage ids)
  from page_callback_prefix [of RR D ids True "t @ [ListCall input (Inr ids)]"]
  obtain k where "snd (page_callback RR D ids True (t @ [ListCall input (Inr ids)]))
      = (t @ [ListCall input (Inr ids)]) @ map (\<lambda>result. Stream (summary D result)) (take k ids)"
    by blast
  with LastPage show ?case
    by (auto split: prod.splits)
next
  case (NextPage ids rest)
  let ?t1 = "t @ [ListCall input (Inr ids)]"
  let ?new = "map (\<lambda>result. Stream (summary D result))"
  from page_callback_prefix [of RR D ids False ?t1]
  obtain k where k: "snd (page_callback RR D ids False ?t1) = ?t1 @ ?new (take k ids)"
    by blast
  show ?case
  proof (cases "fst (page_callback RR D ids False ?t1)")
    case False
    with k NextPage.prems show ?thesis by (auto split: prod.splits)
  next
    case True
    with k NextPage.prems have
      "ListThreatIntelSetsPages rest input (page_callback RR D) (?t1 @ ?new (take k ids)) = (r, t')"
      by (auto split: prod.splits)
    from NextPage.IH [OF this] obtain new2 where
      n2: "t' = (?t1 @ ?new (take k ids)) @ new2"
          "case r of
             None \<Rightarrow> \<forall>j x. ListCall j (Inl x) \<notin> set new2
           | Some e \<Rightarrow> \<exists>pre. new2 = pre @ [ListCall input (Inl e)] \<and>
                        (\<forall>j x. ListCall j (Inl x) \<notin> set pre)"
      by blast
    show ?thesis
    proof (cases r)
      case None
      with n2 show ?thesis by auto
    next
      case (Some e)
      with n2(2) obtain pre where
        pre: "new2 = pre @ [ListCall input (Inl e)]" "\<forall>j x. ListCall j (Inl x) \<notin> set pre"
        by auto
      have "t' = t @ (ListCall input (Inr ids) # ?new (take k ids) @ pre) @ [ListCall input (Inl e)]"
        using n2(1) pre(1) by simp
      moreover have "\<forall>j x. ListCall j (Inl x) \<notin> set (ListCall input (Inr ids) # ?new (take k ids) @ pre)"
        using pre(2) by auto
      ultimately show ?thesis using Some by auto
    qed
  qed
qed

lemma get_calls_once:
  "\<exists>params. snd (getGuardDutyThreatIntelSet (Inr svc) KeyColumnQuals Item t)
                   = t @ [GetCall params (GetThreatIntelSet svc params)] \<and>
         (\<forall>e. GetThreatIntelSet svc params = Inl e \<longrightarrow>
            fst (getGuardDutyThreatIntelSet (Inr svc) KeyColumnQuals Item t) = Inl e) \<and>
         (\<forall>e. fst (getGuardDutyThreatIntelSet (Inr svc) KeyColumnQuals Item t) = Inl e \<longrightarrow>
            GetThreatIntelSet svc params = Inl e)"
proof -
  obtain d i where di:
    "(case Item of
        Some item \<Rightarrow> (DetectorID item, ThreatIntelSetID item)
      | None \<Rightarrow> (GetStringValue (KeyColumnQuals ''detector_id''),
                 GetStringValue (KeyColumnQuals ''threat_intel_set_id''))) = (d, i)"
    by (cases "(case Item of
        Some item \<Rightarrow> (DetectorID item, ThreatIntelSetID item)
      | None \<Rightarrow> (GetStringValue (KeyColumnQuals ''detector_id''),
                 GetStringValue (KeyColumnQuals ''threat_intel_set_id'')))") blast
  let ?params = "\<lparr>GetDetectorId = d, GetThreatIntelSetId = i\<rparr>"
  show ?thesis
  proof (cases "GetThreatIntelSet svc ?params")
    case (Inl e)
    with di have "getGuardDutyThreatIntelSet (Inr svc) KeyColumnQuals Item t
        = (Inl e, t @ [GetCall ?params (Inl e)])"
      by (simp add: getGuardDutyThreatIntelSet_def)
    with Inl show ?thesis
      by (intro exI [of _ ?params]) simp
  next
    case (Inr op)
    with di have "\<exists>info. getGuardDutyThreatIntelSet (Inr svc) KeyColumnQuals Item t
        = (Inr info, t @ [GetCall ?params (Inr op)])"
      by (simp add: getGuardDutyThreatIntelSet_def)
    with Inr show ?thesis
      by (intro exI [of _ ?params]) auto
  qed
qed


lemma list_error_is_last_call:
  assumes run: "listGuardDutyThreatIntelSets (Inr svc) getListValues Sprint RowsRemaining
                  equalQuals detectorID t = (r, t')"
  shows "\<exists>new. t' = t @ new \<and>
           (case r of
              None \<Rightarrow> \<forall>j x. ListCall j (Inl x) \<notin> set new
            | Some e \<Rightarrow> \<exists>pre. new = pre @ [ListCall \<lparr>DetectorId = detectorID, MaxResults = 50\<rparr> (Inl e)] \<and>
                        (\<forall>j x. ListCall j (Inl x) \<notin> set pre))"
proof (cases "skips_detector getListValues Sprint equalQuals detectorID")
  case True
  with run have "r = None" "t' = t" by (simp_all add: listGuardDutyThreatIntelSets_def)
  then show ?thesis by simp
next
  case False
  with run have "ListThreatIntelSetsPages
      (ListThreatIntelSets svc \<lparr>DetectorId = detectorID, MaxResults = 50\<rparr>)
      \<lparr>DetectorId = detectorID, MaxResults = 50\<rparr>
      (page_callback RowsRemaining detectorID) t = (r, t')"
    by (simp add: listGuardDutyThreatIntelSets_def)
  then show ?thesis by (rule pages_errors)
qed


lemma failed_call_shape:
  assumes "case r of
             None \<Rightarrow> \<forall>j x. ListCall j (Inl x) \<notin> set new
           | Some e \<Rightarrow> \<exists>pre. new = pre @ [ListCall i (Inl e)] \<and>
                        (\<forall>j x. ListCall j (Inl x) \<notin> set pre)"
  shows "(\<forall>pre input e post. new = pre @ ListCall input (Inl e) # post \<longrightarrow>
            post = [] \<and> r = Some e) \<and>
         (\<forall>e. r = Some e \<longrightarrow> (\<exists>pre input. new = pre @ [ListCall input (Inl e)]))"
proof (cases r)
  case None
  with assms have none: "\<forall>j x. ListCall j (Inl x) \<notin> set new" by simp
  have "False" if "new = pre @ ListCall input (Inl e) # post" for pre input e post
  proof -
    from that have "ListCall input (Inl e) \<in> set new" by simp
    with none show False by blast
  qed
  with None show ?thesis by blast
next
  case (Some e')
  with assms obtain pre' where
    p: "new = pre' @ [ListCall i (Inl e')]" "\<forall>j x. ListCall j (Inl x) \<notin> set pre'"
    by auto
  have "post = [] \<and> r = Some e" if "new = pre @ ListCall input (Inl e) # post"
    for pre input e post
  proof -
    have "pre @ ListCall input (Inl e) # post = pre' @ [ListCall i (Inl e')]"
      using that [symmetric] p(1) by (rule trans)
    from failed_call_last [OF this p(2)] Some show ?thesis by blast
  qed
  moreover have "\<exists>pre input. new = pre @ [ListCall input (Inl e)]" if "r = Some e" for e
    using that Some p(1) by blast
  ultimately show ?thesis by blast
qed


lemma list_failed_call_aborts:
  "\<exists>new. snd (listGuardDutyThreatIntelSets (Inr svc) getListValues Sprint RowsRemaining
                 equalQuals detectorID t) = t @ new \<and>
     (\<forall>pre input e post. new = pre @ ListCall input (Inl e) # post \<longrightarrow>
        post = [] \<and>
        fst (listGuardDutyThreatIntelSets (Inr svc) getListValues Sprint RowsRemaining
               equalQuals detectorID t) = Some e) \<and>
     (\<forall>e. fst (listGuardDutyThreatIntelSets (Inr svc) getListValues Sprint RowsRemaining
                 equalQuals detectorID t) = Some e \<longrightarrow>
        (\<exists>pre input. new = pre @ [ListCall input (Inl e)]))"
proof -
  obtain r t' where run: "listGuardDutyThreatIntelSets (Inr svc) getListValues Sprint
      RowsRemaining equalQuals detectorID t = (r, t')"
    by (rule prod.exhaust)
  from list_error_is_last_call [OF run] obtain new where
    n: "t' = t @ new"
       "case r of
          None \<Rightarrow> \<forall>j x. ListCall j (Inl x) \<notin> set new
        | Some e \<Rightarrow> \<exists>pre. new = pre @ [ListCall \<lparr>DetectorId = detectorID, MaxResults = 50\<rparr> (Inl e)] \<and>
                    (\<forall>j x. ListCall j (Inl x) \<notin> set pre)"
    by blast
  note shape = failed_call_shape [OF n(2)]
  show ?thesis
    unfolding run fst_conv snd_conv
    using n(1) shape by (intro exI [of _ new] conjI) simp_all
qed

text \<open>
  C7. An error of the session constructor is returned as it is by both resolvers, with
  nothing called and nothing streamed. In the list resolver a failed list call is the
  last event of the run and its error is the error returned; an error returned comes from
  such a call. The get resolver makes exactly one get call; the call's error, if any, is
  the error returned, and no other error is returned.
\<close>

theorem errors_returned_unchanged:
  "listGuardDutyThreatIntelSets (Inl err) getListValues Sprint RowsRemaining equalQuals
       detectorID t = (Some err, t)
   \<and> (\<exists>new. snd (listGuardDutyThreatIntelSets (Inr svc) getListValues Sprint RowsRemaining
                     equalQuals detectorID t) = t @ new \<and>
         (\<forall>pre input e post. new = pre @ ListCall input (Inl e) # post \<longrightarrow>
            post = [] \<and>
            fst (listGuardDutyThreatIntelSets (Inr svc) getListValues Sprint RowsRemaining
                   equalQuals detectorID t) = Some e) \<and>
         (\<forall>e. fst (listGuardDutyThreatIntelSets (Inr svc) getListValues Sprint RowsRemaining
                     equalQuals detectorID t) = Some e \<longrightarrow>
            (\<exists>pre input. new = pre @ [ListCall input (Inl e)])))
   \<and> getGuardDutyThreatIntelSet (Inl err) KeyColumnQuals Item t = (Inl err, t)
   \<and> (\<exists>params. snd (getGuardDutyThreatIntelSet (Inr svc) KeyColumnQuals Item t)
                   = t @ [GetCall params (GetThreatIntelSet svc params)] \<and>
         (\<forall>e. GetThreatIntelSet svc params = Inl e \<longrightarrow>
            fst (getGuardDutyThreatIntelSet (Inr svc) KeyColumnQuals Item t) = Inl e) \<and>
         (\<forall>e. fst (getGuardDutyThreatIntelSet (Inr svc) KeyColumnQuals Item t) = Inl e \<longrightarrow>
            GetThreatIntelSet svc params = Inl e))"
proof (intro conjI)
  show "listGuardDutyThreatIntelSets (Inl err) getListValues Sprint RowsRemaining equalQuals
       detectorID t = (Some err, t)"
    by (simp add: listGuardDutyThreatIntelSets_def)
  show "getGuardDutyThreatIntelSet (Inl err) KeyColumnQuals Item t = (Inl err, t)"
    by (simp add: getGuardDutyThreatIntelSet_def)
qed (rule list_failed_call_aborts, rule get_calls_once)


theorem errors_returned_unchanged_witness:
  "listGuardDutyThreatIntelSets (Inr svc_failing) getListValues_strings Sprint_strings
       unlimited no_quals ''d1'' []
     = (Some (AwsErr ''InternalServerErrorException'' ''try again''),
        [ListCall \<lparr>DetectorId = ''d1'', MaxResults = 50\<rparr> (Inr [''t1'']),
         Stream (summary ''d1'' ''t1''),
         ListCall \<lparr>DetectorId = ''d1'', MaxResults = 50\<rparr>
           (Inl (AwsErr ''InternalServerErrorException'' ''try again''))])
   \<and> getGuardDutyThreatIntelSet (Inr svc_failing) (quals_pair ''d1'' ''t1'') None []
     = (Inl (AwsErr ''ThrottlingException'' ''Rate exceeded''),
        [GetCall \<lparr>GetDetectorId = ''d1'', GetThreatIntelSetId = ''t1''\<rparr>
           (Inl (AwsErr ''ThrottlingException'' ''Rate exceeded''))])
   \<and> getGuardDutyThreatIntelSet (Inl (PlainErr ''no session'')) (quals_pair ''d1'' ''t1'') None []
     = (Inl (PlainErr ''no session''), [])"
proof -
  have run: "listGuardDutyThreatIntelSets (Inr svc_failing) getListValues_strings Sprint_strings
       unlimited no_quals ''d1'' []
     = (Some (AwsErr ''InternalServerErrorException'' ''try again''),
        [ListCall \<lparr>DetectorId = ''d1'', MaxResults = 50\<rparr> (Inr [''t1'']),
         Stream (summary ''d1'' ''t1''),
         ListCall \<lparr>DetectorId = ''d1'', MaxResults = 50\<rparr>
           (Inl (AwsErr ''InternalServerErrorException'' ''try again''))])"
    by (simp add: listGuardDutyThreatIntelSets_def svc_failing_def failing_second_page_def
        skips_detector_def no_quals_def unlimited_def)
  have get: "getGuardDutyThreatIntelSet (Inr svc_failing) (quals_pair ''d1'' ''t1'') None []
     = (Inl (AwsErr ''ThrottlingException'' ''Rate exceeded''),
        [GetCall \<lparr>GetDetectorId = ''d1'', GetThreatIntelSetId = ''t1''\<rparr>
           (Inl (AwsErr ''ThrottlingException'' ''Rate exceeded''))])"
    by (simp add: getGuardDutyThreatIntelSet_def svc_failing_def throttled_def quals_pair_def)
  from errors_returned_unchanged
    [of "PlainErr ''no session''" getListValues_strings Sprint_strings unlimited no_quals
        "''d1''" "[]" svc_failing "quals_pair ''d1'' ''t1''" None]
  have "getGuardDutyThreatIntelSet (Inl (PlainErr ''no session'')) (quals_pair ''d1'' ''t1'')
          None [] = (Inl (PlainErr ''no session''), [])"
    by (elim conjE)
  with run get show ?thesis by (intro conjI)
qed

section \<open>The get resolver's identifying pair\<close>

text \<open>
  C5. The record the get resolver returns carries the pair it fetched with: the pair of the
  list row when it hydrates a row, the pair of the key-column values on a point lookup;
  in both cases the one get call is made with exactly that pair.
\<close>

theorem get_returns_the_pair_it_fetched:
  "(GetThreatIntelSet svc
        \<lparr>GetDetectorId = DetectorID row, GetThreatIntelSetId = ThreatIntelSetID row\<rparr> = Inr op
      \<longrightarrow> (\<exists>info. getGuardDutyThreatIntelSet (Inr svc) KeyColumnQuals (Some row) t
                   = (Inr info,
                      t @ [GetCall \<lparr>GetDetectorId = DetectorID row,
                                    GetThreatIntelSetId = ThreatIntelSetID row\<rparr> (Inr op)]) \<and>
                 DetectorID info = DetectorID row \<and>
                 ThreatIntelSetID info = ThreatIntelSetID row))
   \<and> (KeyColumnQuals ''detector_id'' = Some (StringValue d) \<and>
      KeyColumnQuals ''threat_intel_set_id'' = Some (StringValue i) \<and>
      GetThreatIntelSet svc \<lparr>GetDetectorId = d, GetThreatIntelSetId = i\<rparr> = Inr op
      \<longrightarrow> (\<exists>info. getGuardDutyThreatIntelSet (Inr svc) KeyColumnQuals None t
                   = (Inr info,
                      t @ [GetCall \<lparr>GetDetectorId = d, GetThreatIntelSetId = i\<rparr> (Inr op)]) \<and>
                 DetectorID info = d \<and> ThreatIntelSetID info = i))
   \<and> (getGuardDutyThreatIntelSet GuardDutyService KeyColumnQuals Item t = (Inr info, t')
      \<longrightarrow> (\<exists>op. t' = t @ [GetCall \<lparr>GetDetectorId = DetectorID info,
                                      GetThreatIntelSetId = ThreatIntelSetID info\<rparr> (Inr op)]) \<and>
          (case Item of
             Some row \<Rightarrow> DetectorID info = DetectorID row \<and>
                         ThreatIntelSetID info = ThreatIntelSetID row
           | None \<Rightarrow> DetectorID info = GetStringValue (KeyColumnQuals ''detector_id'') \<and>
                     ThreatIntelSetID info = GetStringValue (KeyColumnQuals ''threat_intel_set_id'')))"
proof (intro conjI impI)
  assume "GetThreatIntelSet svc
        \<lparr>GetDetectorId = DetectorID row, GetThreatIntelSetId = ThreatIntelSetID row\<rparr> = Inr op"
  then show "\<exists>info. getGuardDutyThreatIntelSet (Inr svc) KeyColumnQuals (Some row) t
                   = (Inr info,
                      t @ [GetCall \<lparr>GetDetectorId = DetectorID row,
                                    GetThreatIntelSetId = ThreatIntelSetID row\<rparr> (Inr op)]) \<and>
                 DetectorID info = DetectorID row \<and>
                 ThreatIntelSetID info = ThreatIntelSetID row"
    by (simp add: getGuardDutyThreatIntelSet_def)
next
  assume "KeyColumnQuals ''detector_id'' = Some (StringValue d) \<and>
      KeyColumnQuals ''threat_intel_set_id'' = Some (StringValue i) \<and>
      GetThreatIntelSet svc \<lparr>GetDetectorId = d, GetThreatIntelSetId = i\<rparr> = Inr op"
  then show "\<exists>info. getGuardDutyThreatIntelSet (Inr svc) KeyColumnQuals None t
                   = (Inr info,
                      t @ [GetCall \<lparr>GetDetectorId = d, GetThreatIntelSetId = i\<rparr> (Inr op)]) \<and>
                 DetectorID info = d \<and> ThreatIntelSetID info = i"
    by (simp add: getGuardDutyThreatIntelSet_def)
next
  assume run: "getGuardDutyThreatIntelSet GuardDutyService KeyColumnQuals Item t = (Inr info, t')"
  then show "\<exists>op. t' = t @ [GetCall \<lparr>GetDetectorId = DetectorID info,
                                      GetThreatIntelSetId = ThreatIntelSetID info\<rparr> (Inr op)]"
    by (cases GuardDutyService; cases Item)
       (auto simp: getGuardDutyThreatIntelSet_def split: sum.splits)
  from run show "case Item of
             Some row \<Rightarrow> DetectorID info = DetectorID row \<and>
                         ThreatIntelSetID info = ThreatIntelSetID row
           | None \<Rightarrow> DetectorID info = GetStringValue (KeyColumnQuals ''detector_id'') \<and>
                     ThreatIntelSetID info = GetStringValue (KeyColumnQuals ''threat_intel_set_id'')"
    by (cases GuardDutyService; cases Item)
       (auto simp: getGuardDutyThreatIntelSet_def split: sum.splits)
qed

theorem get_returns_the_pair_it_fetched_witness:
  "fst (getGuardDutyThreatIntelSet (Inr svc_two_pages) no_quals (Some (summary ''d1'' ''t1'')) [])
     = Inr \<lparr>Format = Some ''TXT'', Location = Some ''s3://bucket/list.txt'',
            Name = Some ''blocked'', Status = Some ''ACTIVE'', Tags = [],
            ThreatIntelSetID = ''t1'', DetectorID = ''d1''\<rparr>
   \<and> getGuardDutyThreatIntelSet (Inr svc_two_pages) (quals_pair ''d1'' ''t1'') None []
     = (Inr \<lparr>Format = Some ''TXT'', Location = Some ''s3://bucket/list.txt'',
             Name = Some ''blocked'', Status = Some ''ACTIVE'', Tags = [],
             ThreatIntelSetID = ''t1'', DetectorID = ''d1''\<rparr>,
        [GetCall \<lparr>GetDetectorId = ''d1'', GetThreatIntelSetId = ''t1''\<rparr>
           (Inr \<lparr>Format = Some ''TXT'', Location = Some ''s3://bucket/list.txt'',
                 Name = Some ''blocked'', Status = Some ''ACTIVE'', Tags = []\<rparr>)])"
proof -
  let ?op = "\<lparr>Format = Some ''TXT'', Location = Some ''s3://bucket/list.txt'',
                 Name = Some ''blocked'', Status = Some ''ACTIVE'', Tags = []\<rparr>"
  let ?info = "\<lparr>Format = Some ''TXT'', Location = Some ''s3://bucket/list.txt'',
             Name = Some ''blocked'', Status = Some ''ACTIVE'', Tags = [],
             ThreatIntelSetID = ''t1'', DetectorID = ''d1''\<rparr>"
  have run: "getGuardDutyThreatIntelSet (Inr svc_two_pages) (quals_pair ''d1'' ''t1'') None []
     = (Inr ?info, [GetCall \<lparr>GetDetectorId = ''d1'', GetThreatIntelSetId = ''t1''\<rparr> (Inr ?op)])"
    by (simp add: getGuardDutyThreatIntelSet_def svc_two_pages_def one_set_def quals_pair_def)
  have hyd: "fst (getGuardDutyThreatIntelSet (Inr svc_two_pages) no_quals
               (Some (summary ''d1'' ''t1'')) []) = Inr ?info"
    by (simp add: getGuardDutyThreatIntelSet_def svc_two_pages_def one_set_def summary_def)
  from get_returns_the_pair_it_fetched
    [of svc_two_pages "summary ''d1'' ''t1''" ?op "quals_pair ''d1'' ''t1''" "[]"
        "''d1''" "''t1''" "Inr svc_two_pages" None ?info
        "[GetCall \<lparr>GetDetectorId = ''d1'', GetThreatIntelSetId = ''t1''\<rparr> (Inr ?op)]"]
    run hyd
  show ?thesis by simp
qed

section \<open>The detector-id qual\<close>

lemma pages_start_with_call:
  "\<exists>answer rest. snd (ListThreatIntelSetsPages pg input (page_callback RR D) t)
      = t @ ListCall input answer # rest"
proof (cases pg)
  case (Fails e)
  then show ?thesis by simp
next
  case (LastPage ids)
  from page_callback_prefix [of RR D ids True "t @ [ListCall input (Inr ids)]"]
  obtain k where "snd (page_callback RR D ids True (t @ [ListCall input (Inr ids)]))
      = (t @ [ListCall input (Inr ids)]) @ map (\<lambda>result. Stream (summary D result)) (take k ids)"
    by blast
  with LastPage show ?thesis by (simp add: case_prod_beta)
next
  case (NextPage ids more)
  let ?t1 = "t @ [ListCall input (Inr ids)]"
  from page_callback_prefix [of RR D ids False ?t1]
  obtain k where k: "snd (page_callback RR D ids False ?t1)
      = ?t1 @ map (\<lambda>result. Stream (summary D result)) (take k ids)"
    by blast
  show ?thesis
  proof (cases "fst (page_callback RR D ids False ?t1)")
    case False
    with NextPage k show ?thesis by (simp add: case_prod_beta)
  next
    case True
    from pages_rows_of_page [of more input RR D "snd (page_callback RR D ids False ?t1)" "[]"]
    obtain new where "snd (ListThreatIntelSetsPages more input (page_callback RR D)
        (snd (page_callback RR D ids False ?t1))) = snd (page_callback RR D ids False ?t1) @ new"
      by blast
    with NextPage k True show ?thesis by (simp add: case_prod_beta)
  qed
qed

text \<open>
  C10. When the \<^verbatim>\<open>detector_id\<close> qual is present with an empty string value and
  \<^verbatim>\<open>getListValues\<close> finds no list values in it, the detector is not skipped: the resolver
  does what it does without the qual, and with a session its first step is the list call
  for this detector.
\<close>

theorem empty_constraint_filters_nothing:
  assumes "equalQuals ''detector_id'' = Some q"
    and "GetStringValue (Some q) = ''''"
    and "getListValues (GetListValue (Some q)) = []"
  shows "\<not> skips_detector getListValues Sprint equalQuals detectorID
       \<and> listGuardDutyThreatIntelSets GuardDutyService getListValues Sprint RowsRemaining
           equalQuals detectorID t
         = listGuardDutyThreatIntelSets GuardDutyService getListValues Sprint RowsRemaining
             Map.empty detectorID t
       \<and> (\<exists>answer rest.
             snd (listGuardDutyThreatIntelSets (Inr svc) getListValues Sprint RowsRemaining
                    equalQuals detectorID t)
               = t @ ListCall \<lparr>DetectorId = detectorID, MaxResults = 50\<rparr> answer # rest)"
proof -
  from assms have skip: "\<not> skips_detector getListValues Sprint equalQuals detectorID"
    by (simp add: skips_detector_def)
  have none: "\<not> skips_detector getListValues Sprint Map.empty detectorID"
    by (simp add: skips_detector_def)
  from skip none have same: "listGuardDutyThreatIntelSets GuardDutyService getListValues Sprint
      RowsRemaining equalQuals detectorID t
    = listGuardDutyThreatIntelSets GuardDutyService getListValues Sprint RowsRemaining
        Map.empty detectorID t"
    by (cases GuardDutyService) (simp_all add: listGuardDutyThreatIntelSets_def)
  from skip have "\<exists>answer rest.
             snd (listGuardDutyThreatIntelSets (Inr svc) getListValues Sprint RowsRemaining
                    equalQuals detectorID t)
               = t @ ListCall \<lparr>DetectorId = detectorID, MaxResults = 50\<rparr> answer # rest"
    using pages_start_with_call
      [of "ListThreatIntelSets svc \<lparr>DetectorId = detectorID, MaxResults = 50\<rparr>"
          "\<lparr>DetectorId = detectorID, MaxResults = 50\<rparr>" RowsRemaining detectorID t]
    by (simp add: listGuardDutyThreatIntelSets_def)
  with skip same show ?thesis by (intro conjI)
qed

theorem empty_constraint_filters_nothing_witness:
  "quals_string '''' ''detector_id'' = Some (StringValue '''')
   \<and> GetStringValue (Some (StringValue '''')) = ''''
   \<and> getListValues_strings (GetListValue (Some (StringValue ''''))) = []
   \<and> listGuardDutyThreatIntelSets (Inr svc_two_pages) getListValues_strings Sprint_strings
         (limited 1) (quals_string '''') ''d1'' []
     = (None, [ListCall \<lparr>DetectorId = ''d1'', MaxResults = 50\<rparr> (Inr [''t1'', ''t2'']),
               Stream (summary ''d1'' ''t1'')])"
proof -
  have a: "quals_string '''' ''detector_id'' = Some (StringValue '''')"
    by (simp add: quals_string_def)
  have b: "GetStringValue (Some (StringValue '''')) = ''''"
    by simp
  have c: "getListValues_strings (GetListValue (Some (StringValue ''''))) = []"
    by (simp add: getListValues_strings_def)
  have run: "listGuardDutyThreatIntelSets (Inr svc_two_pages) getListValues_strings
         Sprint_strings (limited 1) Map.empty ''d1'' []
     = (None, [ListCall \<lparr>DetectorId = ''d1'', MaxResults = 50\<rparr> (Inr [''t1'', ''t2'']),
               Stream (summary ''d1'' ''t1'')])"
    by (simp add: listGuardDutyThreatIntelSets_def svc_two_pages_def two_pages_def
        skips_detector_def limited_def)
  from empty_constraint_filters_nothing
    [where equalQuals = "quals_string ''''" and q = "StringValue ''''"
       and getListValues = getListValues_strings and Sprint = Sprint_strings
       and detectorID = "''d1''" and GuardDutyService = "Inr svc_two_pages"
       and RowsRemaining = "limited 1" and t = "[]" and svc = svc_two_pages, OF a b c]
  have "listGuardDutyThreatIntelSets (Inr svc_two_pages) getListValues_strings Sprint_strings
         (limited 1) (quals_string '''') ''d1'' []
     = listGuardDutyThreatIntelSets (Inr svc_two_pages) getListValues_strings Sprint_strings
         (limited 1) Map.empty ''d1'' []"
    by (elim conjE)
  with run a b c show ?thesis by simp
qed

text \<open>
  The two skip branches. \<^verbatim>\<open>Contains\<close> holds exactly when the second string occurs in
  the first, as \<^verbatim>\<open>strings.Contains\<close> does.
\<close>

lemma HasPrefix_iff: "HasPrefix s p = (\<exists>post. s = p @ post)"
  by (induction s p rule: HasPrefix.induct) auto

lemma Contains_iff_substring: "Contains s substr = (\<exists>pre post. s = pre @ substr @ post)"
proof (induction s)
  case Nil
  show ?case by auto
next
  case (Cons x s)
  show ?case
  proof
    assume "Contains (x # s) substr"
    then consider "HasPrefix (x # s) substr" | "Contains s substr" by auto
    then show "\<exists>pre post. x # s = pre @ substr @ post"
    proof cases
      case 1
      then obtain post where "x # s = substr @ post" by (auto simp: HasPrefix_iff)
      then have "x # s = [] @ substr @ post" by simp
      then show ?thesis by blast
    next
      case 2
      with Cons.IH obtain pre post where "s = pre @ substr @ post" by blast
      then have "x # s = (x # pre) @ substr @ post" by simp
      then show ?thesis by blast
    qed
  next
    assume "\<exists>pre post. x # s = pre @ substr @ post"
    then obtain pre post where eq: "x # s = pre @ substr @ post" by blast
    show "Contains (x # s) substr"
    proof (cases pre)
      case Nil
      with eq have "HasPrefix (x # s) substr" by (auto simp: HasPrefix_iff)
      then show ?thesis by simp
    next
      case (Cons y ys)
      with eq have "s = ys @ substr @ post" by simp
      with Cons.IH have "Contains s substr" by blast
      then show ?thesis by simp
    qed
  qed
qed

text \<open>
  C3, as the code has it. A single-value \<^verbatim>\<open>detector_id\<close> constraint that is not the empty
  string and differs from the detector of the current parent row makes the list resolver
  return at once: nothing is called and nothing is streamed. (The empty string is taken
  for no string value: see C10.)
\<close>

theorem single_value_constraint_skips_other_detectors:
  assumes "equalQuals ''detector_id'' = Some (StringValue F)"
    and "F \<noteq> ''''"
    and "F \<noteq> detectorID"
  shows "listGuardDutyThreatIntelSets (Inr svc) getListValues Sprint RowsRemaining
           equalQuals detectorID t = (None, t)
       \<and> snd (listGuardDutyThreatIntelSets GuardDutyService getListValues Sprint RowsRemaining
                equalQuals detectorID t) = t"
proof -
  from assms have skip: "skips_detector getListValues Sprint equalQuals detectorID"
    by (simp add: skips_detector_def)
  then have "listGuardDutyThreatIntelSets (Inr svc) getListValues Sprint RowsRemaining
           equalQuals detectorID t = (None, t)"
    by (simp add: listGuardDutyThreatIntelSets_def)
  moreover from skip have "snd (listGuardDutyThreatIntelSets GuardDutyService getListValues
      Sprint RowsRemaining equalQuals detectorID t) = t"
    by (cases GuardDutyService) (simp_all add: listGuardDutyThreatIntelSets_def)
  ultimately show ?thesis by (intro conjI)
qed

theorem single_value_constraint_skips_other_detectors_witness:
  "quals_string ''d2'' ''detector_id'' = Some (StringValue ''d2'')
   \<and> ''d2'' \<noteq> '''' \<and> ''d2'' \<noteq> ''d1''
   \<and> listGuardDutyThreatIntelSets (Inr svc_two_pages) getListValues_strings Sprint_strings
         unlimited (quals_string ''d2'') ''d1'' [] = (None, [])"
proof -
  have a: "quals_string ''d2'' ''detector_id'' = Some (StringValue ''d2'')"
    by (simp add: quals_string_def)
  have b: "''d2'' \<noteq> ''''" by simp
  have c: "''d2'' \<noteq> ''d1''" by simp
  from single_value_constraint_skips_other_detectors
    [where equalQuals = "quals_string ''d2''" and F = "''d2''" and detectorID = "''d1''"
       and svc = svc_two_pages and getListValues = getListValues_strings
       and Sprint = Sprint_strings and RowsRemaining = unlimited and t = "[]"
       and GuardDutyService = "Inr svc_two_pages", OF a b c]
  have "listGuardDutyThreatIntelSets (Inr svc_two_pages) getListValues_strings Sprint_strings
         unlimited (quals_string ''d2'') ''d1'' [] = (None, [])"
    by (elim conjE)
  with a b c show ?thesis by (intro conjI)
qed

text \<open>
  The claim C3 as it is written fails where the single value is the empty string: the
  constraint differs from the detector \<^verbatim>\<open>d1\<close>, and the resolver lists all three sets of
  \<^verbatim>\<open>d1\<close>.
\<close>

theorem empty_string_constraint_counterexample:
  "quals_string '''' ''detector_id'' = Some (StringValue '''')
   \<and> '''' \<noteq> ''d1''
   \<and> listGuardDutyThreatIntelSets (Inr svc_two_pages) getListValues_strings Sprint_strings
         unlimited (quals_string '''') ''d1'' []
     = (None, [ListCall \<lparr>DetectorId = ''d1'', MaxResults = 50\<rparr> (Inr [''t1'', ''t2'']),
               Stream (summary ''d1'' ''t1''), Stream (summary ''d1'' ''t2''),
               ListCall \<lparr>DetectorId = ''d1'', MaxResults = 50\<rparr> (Inr [''t3'']),
               Stream (summary ''d1'' ''t3'')])"
  by (simp add: listGuardDutyThreatIntelSets_def svc_two_pages_def two_pages_def
      skips_detector_def quals_string_def getListValues_strings_def unlimited_def)

text \<open>
  C2, as the code has it. A list-valued \<^verbatim>\<open>detector_id\<close> constraint in which
  \<^verbatim>\<open>getListValues\<close> finds at least one value is tested by substring containment on the
  printed list: when the detector's ID is not a substring, nothing is called and nothing
  is streamed; when it is a substring, element or not, the resolver does what it does
  without the qual.
\<close>

theorem list_value_constraint_skips_by_substring:
  assumes "equalQuals ''detector_id'' = Some (ListValue S)"
    and "getListValues (Some S) \<noteq> []"
  shows "(\<not> Contains (Sprint (getListValues (Some S))) detectorID \<longrightarrow>
            listGuardDutyThreatIntelSets (Inr svc) getListValues Sprint RowsRemaining
              equalQuals detectorID t = (None, t) \<and>
            snd (listGuardDutyThreatIntelSets GuardDutyService getListValues Sprint
                   RowsRemaining equalQuals detectorID t) = t)
       \<and> (Contains (Sprint (getListValues (Some S))) detectorID \<longrightarrow>
            listGuardDutyThreatIntelSets GuardDutyService getListValues Sprint RowsRemaining
              equalQuals detectorID t
            = listGuardDutyThreatIntelSets GuardDutyService getListValues Sprint RowsRemaining
                Map.empty detectorID t)"
proof (intro conjI impI)
  assume "\<not> Contains (Sprint (getListValues (Some S))) detectorID"
  with assms have skip: "skips_detector getListValues Sprint equalQuals detectorID"
    by (simp add: skips_detector_def)
  then show "listGuardDutyThreatIntelSets (Inr svc) getListValues Sprint RowsRemaining
              equalQuals detectorID t = (None, t)"
    by (simp add: listGuardDutyThreatIntelSets_def)
  from skip show "snd (listGuardDutyThreatIntelSets GuardDutyService getListValues Sprint
                   RowsRemaining equalQuals detectorID t) = t"
    by (cases GuardDutyService) (simp_all add: listGuardDutyThreatIntelSets_def)
next
  assume "Contains (Sprint (getListValues (Some S))) detectorID"
  with assms have "\<not> skips_detector getListValues Sprint equalQuals detectorID"
    by (simp add: skips_detector_def)
  moreover have "\<not> skips_detector getListValues Sprint Map.empty detectorID"
    by (simp add: skips_detector_def)
  ultimately show "listGuardDutyThreatIntelSets GuardDutyService getListValues Sprint
      RowsRemaining equalQuals detectorID t
    = listGuardDutyThreatIntelSets GuardDutyService getListValues Sprint RowsRemaining
        Map.empty detectorID t"
    by (cases GuardDutyService) (simp_all add: listGuardDutyThreatIntelSets_def)
qed

theorem list_value_constraint_skips_by_substring_witness:
  "quals_list [''d12'', ''d3''] ''detector_id''
     = Some (ListValue [StringValue ''d12'', StringValue ''d3''])
   \<and> getListValues_strings (Some [StringValue ''d12'', StringValue ''d3'']) = [''d12'', ''d3'']
   \<and> Sprint_strings [''d12'', ''d3''] = ''[d12 d3]''
   \<and> \<not> Contains ''[d12 d3]'' ''d2''
   \<and> listGuardDutyThreatIntelSets (Inr svc_two_pages) getListValues_strings Sprint_strings
         unlimited (quals_list [''d12'', ''d3'']) ''d2'' [] = (None, [])
   \<and> Contains ''[d12 d3]'' ''d1''
   \<and> ''d1'' \<notin> set [''d12'', ''d3'']
   \<and> listGuardDutyThreatIntelSets (Inr svc_two_pages) getListValues_strings Sprint_strings
         unlimited (quals_list [''d12'', ''d3'']) ''d1'' []
     = (None, [ListCall \<lparr>DetectorId = ''d1'', MaxResults = 50\<rparr> (Inr [''t1'', ''t2'']),
               Stream (summary ''d1'' ''t1''), Stream (summary ''d1'' ''t2''),
               ListCall \<lparr>DetectorId = ''d1'', MaxResults = 50\<rparr> (Inr [''t3'']),
               Stream (summary ''d1'' ''t3'')])"
proof -
  have a: "quals_list [''d12'', ''d3''] ''detector_id''
     = Some (ListValue [StringValue ''d12'', StringValue ''d3''])"
    by (simp add: quals_list_def)
  have g: "getListValues_strings (Some [StringValue ''d12'', StringValue ''d3''])
     = [''d12'', ''d3'']"
    by (simp add: getListValues_strings_def)
  then have b: "getListValues_strings (Some [StringValue ''d12'', StringValue ''d3'']) \<noteq> []"
    by simp
  have p: "Sprint_strings [''d12'', ''d3''] = ''[d12 d3]''"
    by (simp add: Sprint_strings_def)
  have n: "\<not> Contains ''[d12 d3]'' ''d2''" by simp
  have y: "Contains ''[d12 d3]'' ''d1''" by simp
  have m: "''d1'' \<notin> set [''d12'', ''d3'']" by simp
  have free: "listGuardDutyThreatIntelSets (Inr svc_two_pages) getListValues_strings
         Sprint_strings unlimited Map.empty ''d1'' []
     = (None, [ListCall \<lparr>DetectorId = ''d1'', MaxResults = 50\<rparr> (Inr [''t1'', ''t2'']),
               Stream (summary ''d1'' ''t1''), Stream (summary ''d1'' ''t2''),
               ListCall \<lparr>DetectorId = ''d1'', MaxResults = 50\<rparr> (Inr [''t3'']),
               Stream (summary ''d1'' ''t3'')])"
    by (simp add: listGuardDutyThreatIntelSets_def svc_two_pages_def two_pages_def
        skips_detector_def unlimited_def)
  note skip = list_value_constraint_skips_by_substring
    [where equalQuals = "quals_list [''d12'', ''d3'']"
       and S = "[StringValue ''d12'', StringValue ''d3'']"
       and getListValues = getListValues_strings and Sprint = Sprint_strings
       and detectorID = "''d2''" and svc = svc_two_pages and RowsRemaining = unlimited
       and t = "[]" and GuardDutyService = "Inr svc_two_pages", OF a b]
  note pass = list_value_constraint_skips_by_substring
    [where equalQuals = "quals_list [''d12'', ''d3'']"
       and S = "[StringValue ''d12'', StringValue ''d3'']"
       and getListValues = getListValues_strings and Sprint = Sprint_strings
       and detectorID = "''d1''" and svc = svc_two_pages and RowsRemaining = unlimited
       and t = "[]" and GuardDutyService = "Inr svc_two_pages", OF a b]
  from skip n have s2: "listGuardDutyThreatIntelSets (Inr svc_two_pages) getListValues_strings
         Sprint_strings unlimited (quals_list [''d12'', ''d3'']) ''d2'' [] = (None, [])"
    by (simp only: g p simp_thms)
  from pass y have s1: "listGuardDutyThreatIntelSets (Inr svc_two_pages) getListValues_strings
         Sprint_strings unlimited (quals_list [''d12'', ''d3'']) ''d1'' []
     = listGuardDutyThreatIntelSets (Inr svc_two_pages) getListValues_strings
         Sprint_strings unlimited Map.empty ''d1'' []"
    by (simp only: g p simp_thms)
  from a g p n s2 y m s1 [unfolded free] show ?thesis by (intro conjI)
qed

text \<open>
  The claim C2 as it is written fails where the list holds no value: \<^verbatim>\<open>d1\<close> is not a
  substring of the printed empty list, and the resolver lists all three sets of \<^verbatim>\<open>d1\<close>.
\<close>

theorem empty_list_constraint_counterexample:
  "quals_list [] ''detector_id'' = Some (ListValue [])
   \<and> Sprint_strings (getListValues_strings (Some [])) = ''[]''
   \<and> \<not> Contains ''[]'' ''d1''
   \<and> listGuardDutyThreatIntelSets (Inr svc_two_pages) getListValues_strings Sprint_strings
         unlimited (quals_list []) ''d1'' []
     = (None, [ListCall \<lparr>DetectorId = ''d1'', MaxResults = 50\<rparr> (Inr [''t1'', ''t2'']),
               Stream (summary ''d1'' ''t1''), Stream (summary ''d1'' ''t2''),
               ListCall \<lparr>DetectorId = ''d1'', MaxResults = 50\<rparr> (Inr [''t3'']),
               Stream (summary ''d1'' ''t3'')])"
  by (simp add: listGuardDutyThreatIntelSets_def svc_two_pages_def two_pages_def
      skips_detector_def quals_list_def getListValues_strings_def unlimited_def
      Sprint_strings_def)

section \<open>The not-found classification\<close>

text \<open>
  C8. When the get resolver fails on a point lookup with an AWS error whose code is
  \<^verbatim>\<open>InvalidInputException\<close> or \<^verbatim>\<open>BadRequestException\<close>, the descriptor's ignore policy
  classifies the error as not found and the lookup yields the empty result set; with any
  other code the policy does not classify it and the lookup fails with that error. An
  error without an AWS code is never classified.
\<close>

theorem not_found_codes_give_empty_result:
  assumes "getGuardDutyThreatIntelSet GuardDutyService KeyColumnQuals None t
             = (Inl (AwsErr code msg), t')"
  shows "(code = ''InvalidInputException'' \<or> code = ''BadRequestException'' \<longrightarrow>
            ShouldIgnoreErrorFunc tableAwsGuardDutyThreatIntelSet_Get (AwsErr code msg) \<and>
            point_lookup tableAwsGuardDutyThreatIntelSet_Get GuardDutyService KeyColumnQuals t
              = (Inr [], t'))
       \<and> (code \<noteq> ''InvalidInputException'' \<and> code \<noteq> ''BadRequestException'' \<longrightarrow>
            \<not> ShouldIgnoreErrorFunc tableAwsGuardDutyThreatIntelSet_Get (AwsErr code msg) \<and>
            point_lookup tableAwsGuardDutyThreatIntelSet_Get GuardDutyService KeyColumnQuals t
              = (Inl (AwsErr code msg), t'))
       \<and> \<not> ShouldIgnoreErrorFunc tableAwsGuardDutyThreatIntelSet_Get (PlainErr m)"
  using assms
  by (simp add: point_lookup_def tableAwsGuardDutyThreatIntelSet_Get_def isNotFoundError_def)

theorem not_found_codes_give_empty_result_witness:
  "getGuardDutyThreatIntelSet (Inr svc_two_pages) (quals_pair ''d1'' ''t9'') None []
     = (Inl (AwsErr ''BadRequestException'' ''The request is rejected''),
        [GetCall \<lparr>GetDetectorId = ''d1'', GetThreatIntelSetId = ''t9''\<rparr>
           (Inl (AwsErr ''BadRequestException'' ''The request is rejected''))])
   \<and> point_lookup tableAwsGuardDutyThreatIntelSet_Get (Inr svc_two_pages)
         (quals_pair ''d1'' ''t9'') []
     = (Inr [],
        [GetCall \<lparr>GetDetectorId = ''d1'', GetThreatIntelSetId = ''t9''\<rparr>
           (Inl (AwsErr ''BadRequestException'' ''The request is rejected''))])
   \<and> point_lookup tableAwsGuardDutyThreatIntelSet_Get (Inr svc_failing)
         (quals_pair ''d1'' ''t1'') []
     = (Inl (AwsErr ''ThrottlingException'' ''Rate exceeded''),
        [GetCall \<lparr>GetDetectorId = ''d1'', GetThreatIntelSetId = ''t1''\<rparr>
           (Inl (AwsErr ''ThrottlingException'' ''Rate exceeded''))])"
proof -
  have bad: "getGuardDutyThreatIntelSet (Inr svc_two_pages) (quals_pair ''d1'' ''t9'') None []
     = (Inl (AwsErr ''BadRequestException'' ''The request is rejected''),
        [GetCall \<lparr>GetDetectorId = ''d1'', GetThreatIntelSetId = ''t9''\<rparr>
           (Inl (AwsErr ''BadRequestException'' ''The request is rejected''))])"
    by (simp add: getGuardDutyThreatIntelSet_def svc_two_pages_def one_set_def quals_pair_def)
  have thr: "getGuardDutyThreatIntelSet (Inr svc_failing) (quals_pair ''d1'' ''t1'') None []
     = (Inl (AwsErr ''ThrottlingException'' ''Rate exceeded''),
        [GetCall \<lparr>GetDetectorId = ''d1'', GetThreatIntelSetId = ''t1''\<rparr>
           (Inl (AwsErr ''ThrottlingException'' ''Rate exceeded''))])"
    by (simp add: getGuardDutyThreatIntelSet_def svc_failing_def throttled_def quals_pair_def)
  from not_found_codes_give_empty_result [OF bad, of "[]"]
  have one: "point_lookup tableAwsGuardDutyThreatIntelSet_Get (Inr svc_two_pages)
         (quals_pair ''d1'' ''t9'') []
     = (Inr [],
        [GetCall \<lparr>GetDetectorId = ''d1'', GetThreatIntelSetId = ''t9''\<rparr>
           (Inl (AwsErr ''BadRequestException'' ''The request is rejected''))])"
    by simp
  from not_found_codes_give_empty_result [OF thr, of "[]"]
  have two: "point_lookup tableAwsGuardDutyThreatIntelSet_Get (Inr svc_failing)
         (quals_pair ''d1'' ''t1'') []
     = (Inl (AwsErr ''ThrottlingException'' ''Rate exceeded''),
        [GetCall \<lparr>GetDetectorId = ''d1'', GetThreatIntelSetId = ''t1''\<rparr>
           (Inl (AwsErr ''ThrottlingException'' ''Rate exceeded''))])"
    by simp
  from bad one two show ?thesis by (intro conjI)
qed

end
